theory Spec2Isabelle
  imports Complex_Main "HOL-Library.AList"
begin

section \<open>JavaScript values\<close>

text \<open>
  The front end receives its data as parsed JSON. A value is one of the JSON kinds, or
  \<^verbatim>\<open>undefined\<close> (the result of reading a property that is absent). Numbers carry the
  numeric value of the double; the code below only tests them for zero and uses row
  indices, so no floating-point arithmetic is involved. An object is the list of its own
  properties, each name once; the order of the list carries no meaning (JavaScript
  enumerates integer-like names first) and nothing below depends on it.
\<close>

datatype jsval =
    JUndefined
  | JNull
  | JBool bool
  | JNum real
  | JStr string
  | JArr "jsval list"
  | JObj "(string \<times> jsval) list"

datatype js_error = SyntaxError | TypeError | RangeError

text \<open>The conversion to boolean used by \<^verbatim>\<open>!x\<close>, \<^verbatim>\<open>x ? a : b\<close> and \<^verbatim>\<open>if (x)\<close>.\<close>

fun truthy :: "jsval \<Rightarrow> bool" where
  "truthy JUndefined = False"
| "truthy JNull = False"
| "truthy (JBool b) = b"
| "truthy (JNum r) = (r \<noteq> 0)"
| "truthy (JStr s) = (s \<noteq> [])"
| "truthy (JArr xs) = True"
| "truthy (JObj kvs) = True"

text \<open>
  Reading a property \<^verbatim>\<open>v.k\<close> of a parsed value, for the property names the handlers
  use (\<^verbatim>\<open>type\<close>, \<^verbatim>\<open>data\<close>, \<^verbatim>\<open>metadata\<close>, \<^verbatim>\<open>response\<close>, \<^verbatim>\<open>excel_modified\<close>,
  \<^verbatim>\<open>client_id\<close>): none of them is a built-in property of numbers, strings, arrays or
  objects, so only an object's own properties can answer. Reading from \<^verbatim>\<open>null\<close> or
  \<^verbatim>\<open>undefined\<close> throws a TypeError.
\<close>

fun getProp :: "jsval \<Rightarrow> string \<Rightarrow> js_error + jsval" where
  "getProp JUndefined k = Inl TypeError"
| "getProp JNull k = Inl TypeError"
| "getProp (JObj kvs) k = Inr (case map_of kvs k of Some v \<Rightarrow> v | None \<Rightarrow> JUndefined)"
| "getProp v k = Inr JUndefined"


text \<open>\<^verbatim>\<open>i.toString()\<close> for an array index: its decimal digits.\<close>

function toString :: "nat \<Rightarrow> string" where
  "toString n =
     (if n < 10 then [char_of (48 + n)]
      else toString (n div 10) @ [char_of (48 + n mod 10)])"
  by pat_completeness auto
termination
  by (relation "measure (\<lambda>n. n)") auto

section \<open>Component ExcelViewer\<close>

text \<open>
  \<^verbatim>\<open>getExcelColumnName\<close> turns a zero-based column index into a spreadsheet column
  name. The index is a JavaScript number, an IEEE-754 double, and so is every value of
  \<^verbatim>\<open>tempIndex\<close>; the values are integers, and an \<^typ>\<open>int\<close> stands for the
  integer-valued double of that value (an \<^typ>\<open>int\<close> that no double holds is not an
  input of the code). \<^verbatim>\<open>tempIndex % 26\<close> is exact on doubles. The quotient
  \<^verbatim>\<open>tempIndex / 26\<close> and the difference \<^verbatim>\<open>... - 1\<close> are rounded to the nearest
  double, ties to the even mantissa; below \<open>2\<^sup>5\<^sup>3\<close> this rounding never changes the
  result, from there on it can.

  A finite double is \<open>m * 2\<^sup>e\<close> with a mantissa \<open>m\<close> of at most 53 bits and an
  exponent \<open>e \<ge> -1074\<close>. For a quotient \<open>num / den\<close> of positive integers,
  \<open>exponentOfQuotient\<close> is the exponent of the unit in the last place of its rounding:
  \<open>\<lfloor>log\<^sub>2 (num / den)\<rfloor> - 52\<close>, found from the bit length of the integer quotient, and
  not below \<open>-1074\<close>. \<open>roundedQuotient\<close> is the nearest double as the pair (m, e).
  No quotient or difference of the loop is large enough to overflow.
\<close>

fun bitLength :: "nat \<Rightarrow> nat" where
  "bitLength n = (if n = 0 then 0 else Suc (bitLength (n div 2)))"

definition roundNearestEven :: "int \<Rightarrow> int \<Rightarrow> int" where
  "roundNearestEven num den =
     (let q = num div den; r = num mod den
      in if 2 * r < den then q
         else if den < 2 * r then q + 1
         else if even q then q else q + 1)"

definition exponentOfQuotient :: "int \<Rightarrow> int \<Rightarrow> int" where
  "exponentOfQuotient num den =
     max (- 1074)
       ((if den \<le> num then int (bitLength (nat (num div den))) - 1
         else - int (bitLength (nat ((den - 1) div num)))) - 52)"

definition roundedQuotient :: "int \<Rightarrow> int \<Rightarrow> int \<times> int" where
  "roundedQuotient num den =
     (if num = 0 then (0, 0)
      else
        let e = exponentOfQuotient num den
        in if 0 \<le> e then (roundNearestEven num (den * 2 ^ nat e), e)
           else (roundNearestEven (num * 2 ^ nat (- e)) den, e))"

text \<open>\<^verbatim>\<open>Math.floor\<close> of the non-negative double \<open>m * 2\<^sup>e\<close>.\<close>

definition Math_floor :: "int \<times> int \<Rightarrow> int" where
  "Math_floor x =
     (case x of (m, e) \<Rightarrow> if 0 \<le> e then m * 2 ^ nat e else m div 2 ^ nat (- e))"

text \<open>
  \<^verbatim>\<open>x - 1\<close> for an integer-valued double \<open>x\<close>: the integer \<open>x - 1\<close> rounded to the
  nearest double, which is an integer again.
\<close>

definition subtractOne :: "int \<Rightarrow> int" where
  "subtractOne x =
     (let d = x - 1
      in if 0 \<le> d then Math_floor (roundedQuotient d 1)
         else - Math_floor (roundedQuotient (- d) 1))"

text \<open>
  The loop \<^verbatim>\<open>while (tempIndex >= 0) { ... }\<close> carries the pair (tempIndex, columnName).
  It terminates because rounding at most doubles a quotient, so that the next index is
  at most \<open>2 * (2 * tempIndex / 26 - 1)\<close>.
\<close>

function getExcelColumnName_loop :: "int \<Rightarrow> string \<Rightarrow> string" where
  "getExcelColumnName_loop tempIndex columnName =
     (if tempIndex \<ge> 0 then
        (let remainder = tempIndex mod 26;
             columnName' = char_of (65 + remainder) # columnName
         in getExcelColumnName_loop
              (subtractOne (Math_floor (roundedQuotient tempIndex 26))) columnName')
      else columnName)"
  by pat_completeness auto
termination
proof (relation "measure (\<lambda>(tempIndex, columnName). nat (tempIndex + 1))")
  show "wf (measure (\<lambda>(tempIndex, columnName). nat (tempIndex + 1)))"
    by simp
next
  fix tempIndex :: int and columnName :: string and remainder :: int and columnName' :: string
  assume nonneg: "0 \<le> tempIndex"
  have round_le: "roundNearestEven n d * d \<le> 2 * n \<and> 0 \<le> roundNearestEven n d"
    if "0 \<le> n" "0 < d" for n d :: int
  proof -
    define q r x where "q = n div d" and "r = n mod d" and "x = q * d"
    have n: "n = x + r" by (simp add: q_def r_def x_def)
    have r: "0 \<le> r" "r < d" using that(2) by (simp_all add: r_def)
    have q: "0 \<le> q" using that by (simp add: q_def pos_imp_zdiv_nonneg_iff)
    then have x: "0 \<le> x" using that(2) by (simp add: x_def)
    have cases: "roundNearestEven n d = q \<or> (roundNearestEven n d = q + 1 \<and> d \<le> 2 * r)"
      unfolding roundNearestEven_def Let_def q_def[symmetric] r_def[symmetric] by auto
    then show ?thesis
    proof
      assume a: "roundNearestEven n d = q"
      then have "roundNearestEven n d * d = x" by (simp add: x_def)
      then show ?thesis using a q x r n by simp
    next
      assume a: "roundNearestEven n d = q + 1 \<and> d \<le> 2 * r"
      then have "roundNearestEven n d * d = x + d" by (simp add: x_def algebra_simps)
      moreover have "0 \<le> roundNearestEven n d" using a q by simp
      ultimately show ?thesis using a x n by simp
    qed
  qed
  have floor_le: "Math_floor (roundedQuotient n d) * d \<le> 2 * n \<and> 0 \<le> Math_floor (roundedQuotient n d)"
    if "0 \<le> n" "0 < d" for n d :: int
  proof (cases "n = 0")
    case True
    then show ?thesis by (simp add: roundedQuotient_def Math_floor_def)
  next
    case False
    define e where "e = exponentOfQuotient n d"
    show ?thesis
    proof (cases "0 \<le> e")
      case True
      define p where "p = (2::int) ^ nat e"
      have p: "0 < p" by (simp add: p_def)
      have eq: "Math_floor (roundedQuotient n d) = roundNearestEven n (d * p) * p"
        using False True by (simp add: roundedQuotient_def Math_floor_def e_def[symmetric] p_def Let_def)
      have "roundNearestEven n (d * p) * (d * p) \<le> 2 * n \<and> 0 \<le> roundNearestEven n (d * p)"
        using round_le[of n "d * p"] that p by simp
      then show ?thesis unfolding eq using p by (simp add: mult.assoc mult.commute mult.left_commute)
    next
      case neg: False
      define p where "p = (2::int) ^ nat (- e)"
      have p: "0 < p" by (simp add: p_def)
      define m where "m = roundNearestEven (n * p) d"
      have eq: "Math_floor (roundedQuotient n d) = m div p"
        using False neg by (simp add: roundedQuotient_def Math_floor_def e_def[symmetric] p_def m_def Let_def)
      have m: "m * d \<le> 2 * (n * p)" "0 \<le> m"
        using round_le[of "n * p" d] that p by (simp_all add: m_def)
      have "m div p * p + m mod p = m" by (rule div_mult_mod_eq)
      moreover have "0 \<le> m mod p" using p by simp
      ultimately have "(m div p) * p \<le> m" by arith
      then have "(m div p) * p * d \<le> m * d" using that(2) by (simp add: mult_right_mono)
      with m(1) have "(m div p * d) * p \<le> (2 * n) * p" by (simp add: algebra_simps)
      then have "m div p * d \<le> 2 * n" using p by (simp only: mult_le_cancel_right)
      moreover have "0 \<le> m div p" using m(2) p by (simp add: pos_imp_zdiv_nonneg_iff)
      ultimately show ?thesis unfolding eq by simp
    qed
  qed
  define a where "a = Math_floor (roundedQuotient tempIndex 26)"
  have a: "a * 26 \<le> 2 * tempIndex" "0 \<le> a"
    using floor_le[of tempIndex 26] nonneg by (simp_all add: a_def)
  have "subtractOne a < tempIndex"
  proof (cases "a = 0")
    case True
    have "subtractOne 0 = - 1"
      by (simp add: subtractOne_def roundedQuotient_def exponentOfQuotient_def
                    roundNearestEven_def Math_floor_def bitLength.simps Let_def)
    then show ?thesis using True nonneg by simp
  next
    case False
    then have pos: "0 \<le> a - 1" using a(2) by simp
    have "Math_floor (roundedQuotient (a - 1) 1) * 1 \<le> 2 * (a - 1)"
      using floor_le[of "a - 1" 1] pos by simp
    then have "subtractOne a \<le> 2 * (a - 1)"
      using pos by (simp add: subtractOne_def Let_def)
    then show ?thesis using a by simp
  qed
  then show "((subtractOne (Math_floor (roundedQuotient tempIndex 26)), columnName'),
              tempIndex, columnName) \<in> measure (\<lambda>(tempIndex, columnName). nat (tempIndex + 1))"
    using nonneg by (simp add: a_def)
qed

definition getExcelColumnName :: "int \<Rightarrow> string" where
  "getExcelColumnName index = getExcelColumnName_loop index []"

text \<open>
  The effect of ExcelViewer builds the column definitions and the rows handed to the
  data grid. \<^verbatim>\<open>metadata.columns\<close> is the column count sent by the server, an integer;
  \<^verbatim>\<open>Array.from({ length: n }, f)\<close> makes no element for a negative \<open>n\<close> and throws a
  RangeError when \<open>n\<close> is not a valid array length. A falsy \<^verbatim>\<open>metadata\<close> is \<open>None\<close>.
\<close>

record column =
  key :: string
  name :: string
  resizable :: bool
  sortable :: bool
  width :: nat

record metadata =
  columns :: int

record viewer_state =
  viewer_columns :: "column list"
  viewer_rows :: "jsval list"

text \<open>
  The own enumerable properties that the spread \<^verbatim>\<open>...row\<close> copies: the properties of
  an object, the indexed elements of an array, the indexed characters of a string, nothing
  for the other kinds.
\<close>

fun spreadProps :: "jsval \<Rightarrow> (string \<times> jsval) list" where
  "spreadProps (JObj kvs) = kvs"
| "spreadProps (JArr xs) = zip (map toString [0..<length xs]) xs"
| "spreadProps (JStr s) = zip (map toString [0..<length s]) (map (\<lambda>c. JStr [c]) s)"
| "spreadProps v = []"

text \<open>The object literal \<^verbatim>\<open>{ id: rowIndex, ...row }\<close>: later properties overwrite.\<close>

definition formatRow :: "nat \<Rightarrow> jsval \<Rightarrow> jsval" where
  "formatRow rowIndex row =
     JObj (foldl (\<lambda>obj (k, v). AList.update k v obj)
                 [(''id'', JNum (real rowIndex))] (spreadProps row))"

definition makeColumns :: "nat \<Rightarrow> column list" where
  "makeColumns n =
     map (\<lambda>i. \<lparr>key = toString i, name = getExcelColumnName (int i),
                resizable = True, sortable = True, width = 120\<rparr>) [0..<n]"

definition ExcelViewer_useEffect ::
  "viewer_state \<Rightarrow> jsval \<Rightarrow> metadata option \<Rightarrow> js_error + viewer_state" where
  "ExcelViewer_useEffect vs data md =
     (if \<not> truthy data \<or> md = None then Inr vs
      else
        let n = columns (the md) in
        if n > 2 ^ 32 - 1 then Inl RangeError
        else
          let cols = makeColumns (nat n) in
          (case data of
             JArr rs \<Rightarrow>
               let formattedRows = map (\<lambda>(rowIndex, row). formatRow rowIndex row)
                                       (zip [0..<length rs] rs)
               in Inr \<lparr>viewer_columns = cols, viewer_rows = formattedRows\<rparr>
           | _ \<Rightarrow> Inl TypeError))"

section \<open>Component App\<close>

text \<open>
  The state of App is the tuple of its \<^verbatim>\<open>useState\<close> cells. The WebSocket object is
  represented by the session it was opened for and its current \<^verbatim>\<open>readyState\<close>
  (0 CONNECTING, 1 OPEN, 2 CLOSING, 3 CLOSED). What a handler asks of the outside world
  is returned as a list of commands, in program order.
\<close>

record chat_message =
  role :: string
  content :: jsval

record websocket =
  ws_clientId :: jsval
  readyState :: nat

record app_state =
  clientId :: jsval
  excelData :: jsval
  loading :: bool
  error :: "string option"
  socket :: "websocket option"
  messages :: "chat_message list"

datatype command =
    NewWebSocket jsval
  | FetchExcelData jsval
  | SocketSend jsval

definition initial_state :: app_state where
  "initial_state =
     \<lparr>clientId = JNull, excelData = JNull, loading = False, error = None,
      socket = None, messages = []\<rparr>"

definition WebSocket_OPEN :: nat where
  "WebSocket_OPEN = 1"

text \<open>
  The outcome of a \<^verbatim>\<open>fetch\<close>: the request throws, or a response arrives with its
  \<^verbatim>\<open>ok\<close> flag, its status and the result of \<^verbatim>\<open>response.json()\<close>.
\<close>

datatype fetch_outcome =
    FetchThrows
  | FetchResponse bool nat "js_error + jsval"

text \<open>
  The effect that runs when \<^verbatim>\<open>clientId\<close> changes: nothing while it is falsy; otherwise
  it opens the socket of the session, stores it, and calls \<^verbatim>\<open>fetchExcelData\<close>.
\<close>

definition App_useEffect :: "app_state \<Rightarrow> app_state \<times> command list" where
  "App_useEffect st =
     (if \<not> truthy (clientId st) then (st, [])
      else
        let ws = \<lparr>ws_clientId = clientId st, readyState = 0\<rparr>
        in (st\<lparr>socket := Some ws\<rparr>,
            [NewWebSocket (clientId st), FetchExcelData (clientId st)]))"

text \<open>\<^verbatim>\<open>fetchExcelData\<close>, from the point where the request has completed.\<close>

definition fetchExcelData :: "app_state \<Rightarrow> fetch_outcome \<Rightarrow> app_state" where
  "fetchExcelData st outcome =
     (case outcome of
        FetchThrows \<Rightarrow> st\<lparr>error := Some ''Failed to load Excel data. Please try again.''\<rparr>
      | FetchResponse ok status body \<Rightarrow>
          if \<not> ok then st\<lparr>error := Some ''Failed to load Excel data. Please try again.''\<rparr>
          else
            (case body of
               Inl e \<Rightarrow> st\<lparr>error := Some ''Failed to load Excel data. Please try again.''\<rparr>
             | Inr data \<Rightarrow> st\<lparr>excelData := data\<rparr>))"


text \<open>
  \<^verbatim>\<open>handleFileUpload\<close>, as a function of the outcome of the upload request. Every
  exception inside \<^verbatim>\<open>try\<close> is caught and replaced by the fixed error text; the
  \<^verbatim>\<open>finally\<close> block clears \<^verbatim>\<open>loading\<close>.
\<close>

definition handleFileUpload :: "app_state \<Rightarrow> fetch_outcome \<Rightarrow> app_state" where
  "handleFileUpload st outcome =
     (let st1 = st\<lparr>loading := True, error := None\<rparr>;
          failed = st1\<lparr>error := Some ''Failed to upload file. Please try again.''\<rparr>;
          st2 = (case outcome of
                   FetchThrows \<Rightarrow> failed
                 | FetchResponse ok status body \<Rightarrow>
                     if \<not> ok then failed
                     else
                       (case body of
                          Inl e \<Rightarrow> failed
                        | Inr data \<Rightarrow>
                            (case getProp data ''client_id'' of
                               Inl e \<Rightarrow> failed
                             | Inr cid \<Rightarrow> st1\<lparr>clientId := cid\<rparr>)))
      in st2\<lparr>loading := False\<rparr>)"

text \<open>The render of App shows the upload screen exactly while \<^verbatim>\<open>!clientId\<close>.\<close>

definition showsFileUpload :: "app_state \<Rightarrow> bool" where
  "showsFileUpload st = (\<not> truthy (clientId st))"

text \<open>\<^verbatim>\<open>sendMessage\<close>; the frame sent is \<^verbatim>\<open>JSON.stringify({ message })\<close>.\<close>

definition sendMessage :: "app_state \<Rightarrow> string \<Rightarrow> app_state \<times> command list" where
  "sendMessage st message =
     (if socket st = None \<or> readyState (the (socket st)) \<noteq> WebSocket_OPEN
      then (st\<lparr>error := Some ''Connection lost. Please refresh the page.''\<rparr>, [])
      else
        (st\<lparr>messages := messages st @ [\<lparr>role = ''user'', content = JStr message\<rparr>]\<rparr>,
         [SocketSend (JObj [(''message'', JStr message)])]))"

section \<open>Component FileUpload\<close>

text \<open>
  A \<^verbatim>\<open>File\<close> is represented by the two fields the component reads. File names are
  taken as ASCII strings; \<^verbatim>\<open>toLowerCase\<close> leaves every other character outside the
  letters that the extension list is made of.
\<close>

record browser_file =
  file_type :: string
  file_name :: string

record upload_state =
  selectedFile :: "browser_file option"

definition supportedFormats :: "(string \<times> string) list" where
  "supportedFormats =
     [(''application/vnd.openxmlformats-officedocument.spreadsheetml.sheet'', ''.xlsx''),
      (''application/vnd.ms-excel'', ''.xls''),
      (''application/vnd.oasis.opendocument.spreadsheet'', ''.ods''),
      (''text/csv'', ''.csv''),
      (''text/tab-separated-values'', ''.tsv''),
      (''application/vnd.openxmlformats-officedocument.spreadsheetml.template'', ''.xltx''),
      (''application/vnd.ms-excel.template.macroEnabled.12'', ''.xltm''),
      (''application/vnd.ms-excel.sheet.macroEnabled.12'', ''.xlsm'')]"

text \<open>
  \<^verbatim>\<open>supportedFormats\<close> is an object literal, so \<^verbatim>\<open>supportedFormats[k]\<close> also finds the
  properties every object inherits from \<^verbatim>\<open>Object.prototype\<close>; all of them are truthy
  (functions, and the prototype itself for \<^verbatim>\<open>__proto__\<close>).
\<close>

definition objectPrototypeKeys :: "string list" where
  "objectPrototypeKeys =
     [''constructor'', ''hasOwnProperty'', ''isPrototypeOf'', ''propertyIsEnumerable'',
      ''toLocaleString'', ''toString'', ''valueOf'', ''__proto__'',
      ''__defineGetter__'', ''__defineSetter__'', ''__lookupGetter__'', ''__lookupSetter__'']"

definition supportedFormats_truthy :: "string \<Rightarrow> bool" where
  "supportedFormats_truthy k =
     (case map_of supportedFormats k of
        Some ext \<Rightarrow> ext \<noteq> []
      | None \<Rightarrow> k \<in> set objectPrototypeKeys)"

fun join :: "string \<Rightarrow> string list \<Rightarrow> string" where
  "join sep [] = []"
| "join sep [x] = x"
| "join sep (x # y # ys) = x @ sep @ join sep (y # ys)"

definition acceptedExtensions :: string where
  "acceptedExtensions = join '','' (map snd supportedFormats)"

definition toLowerCase :: "string \<Rightarrow> string" where
  "toLowerCase s =
     map (\<lambda>c. if 65 \<le> (of_char c :: nat) \<and> (of_char c :: nat) \<le> 90
               then char_of ((of_char c :: nat) + 32) else c) s"

text \<open>\<^verbatim>\<open>s.split(sep)\<close> for a one-character separator: never an empty array.\<close>

fun split :: "char \<Rightarrow> string \<Rightarrow> string list" where
  "split sep [] = [[]]"
| "split sep (c # cs) =
     (if c = sep then [] # split sep cs
      else (case split sep cs of
              [] \<Rightarrow> [[c]]
            | part # parts \<Rightarrow> (c # part) # parts))"

definition isFileSupported :: "browser_file \<Rightarrow> bool" where
  "isFileSupported f =
     (if supportedFormats_truthy (file_type f) then True
      else
        let extension = last (split (CHR ''.'') (toLowerCase (file_name f)))
        in extension \<in> set [''xlsx'', ''xls'', ''csv'', ''tsv'', ''ods'', ''fods'',
                             ''xlsm'', ''xltx'', ''xltm''])"


text \<open>
  \<^verbatim>\<open>handleDrop\<close>, the drag-and-drop path: the same test, but a rejected file only
  raises the alert and leaves the selection as it was.
\<close>

definition handleDrop :: "upload_state \<Rightarrow> browser_file option \<Rightarrow> upload_state \<times> string list" where
  "handleDrop st file =
     (if file \<noteq> None \<and> isFileSupported (the file)
      then (st\<lparr>selectedFile := file\<rparr>, [])
      else (st, [''Please drop a valid spreadsheet file ('' @ acceptedExtensions @ '')'']))"


section \<open>Column-name decoding and the spreadsheet engine of the specification\<close>

text \<open>
  Modelled from the spec: the decoder of column names. The front end only encodes; the
  specification (section 4.1) describes decoding as the exact inverse of the bijective
  base-26 encoding, where the letters A to Z are the digits 1 to 26 and the index is the
  value of the digit string minus one. A valid column name is a non-empty string of the
  letters A to Z.
\<close>

definition decodeColumnName :: "string \<Rightarrow> int" where
  "decodeColumnName s = foldl (\<lambda>acc c. acc * 26 + (of_char c - 64)) 0 s - 1"

definition upperCaseLetters :: string where
  "upperCaseLetters = ''ABCDEFGHIJKLMNOPQRSTUVWXYZ''"

definition isColumnName :: "string \<Rightarrow> bool" where
  "isColumnName s = (s \<noteq> [] \<and> list_all (\<lambda>c. c \<in> set upperCaseLetters) s)"

text \<open>
  The first index whose name has more than \<open>k\<close> letters:
  \<open>26 + 26\<^sup>2 + \<dots> + 26\<^sup>k\<close>, that is 0, 26, 702, 18278, \dots
\<close>

fun firstIndexOfLength :: "nat \<Rightarrow> int" where
  "firstIndexOfLength 0 = 0"
| "firstIndexOfLength (Suc k) = 26 * (firstIndexOfLength k + 1)"

text \<open>
  Modelled from the spec: the sheet, \<^verbatim>\<open>readRange\<close> and \<^verbatim>\<open>writeRange\<close> of the
  SpreadsheetEngine (sections 3 and 4.2); the engine runs on the server and is not part
  of the front end. A cell is a tagged value with an optional format hint; a sheet has a
  declared extent and a cell at every zero-based (row, column), empty where nothing was
  written; a range is a (topLeft, bottomRight) pair. \<^verbatim>\<open>readRange\<close> fails with
  OutOfBounds when the range exceeds the extent. \<^verbatim>\<open>writeRange\<close> fails with
  ShapeMismatch unless the values have exactly the rows and columns of the range;
  otherwise it stores them, extends the extent if needed, increments the sequence
  counter and returns the change delta.
\<close>

datatype cell_value = Empty | Number real | Text string | Boolean bool

record cell =
  cell_value :: cell_value
  format_hint :: "string option"

record cellAddress =
  row :: nat
  col :: nat

record range =
  topLeft :: cellAddress
  bottomRight :: cellAddress

record sheet =
  rowCount :: nat
  columnCount :: nat
  cellAt :: "nat \<Rightarrow> nat \<Rightarrow> cell"

record change_delta =
  affectedRange :: range
  newValues :: "cell list list"
  sequence :: nat

record engine =
  engine_sheet :: sheet
  engine_sequence :: nat

datatype engine_error = OutOfBounds | ShapeMismatch

definition wellOrdered :: "range \<Rightarrow> bool" where
  "wellOrdered r =
     (row (topLeft r) \<le> row (bottomRight r) \<and> col (topLeft r) \<le> col (bottomRight r))"

definition rangeRows :: "range \<Rightarrow> nat list" where
  "rangeRows r = [row (topLeft r) ..< Suc (row (bottomRight r))]"

definition rangeCols :: "range \<Rightarrow> nat list" where
  "rangeCols r = [col (topLeft r) ..< Suc (col (bottomRight r))]"

definition shapeMatches :: "range \<Rightarrow> cell list list \<Rightarrow> bool" where
  "shapeMatches r v =
     (length v = length (rangeRows r) \<and>
      list_all (\<lambda>cells. length cells = length (rangeCols r)) v)"

definition withinExtent :: "sheet \<Rightarrow> cellAddress \<Rightarrow> bool" where
  "withinExtent s a = (row a < rowCount s \<and> col a < columnCount s)"

definition readRange :: "engine \<Rightarrow> range \<Rightarrow> engine_error + cell list list" where
  "readRange e r =
     (let s = engine_sheet e in
      if withinExtent s (topLeft r) \<and> withinExtent s (bottomRight r)
      then Inr (map (\<lambda>i. map (\<lambda>j. cellAt s i j) (rangeCols r)) (rangeRows r))
      else Inl OutOfBounds)"

definition writeRange ::
  "engine \<Rightarrow> range \<Rightarrow> cell list list \<Rightarrow> engine_error + engine \<times> change_delta" where
  "writeRange e r v =
     (if shapeMatches r v then
        let s = engine_sheet e;
            s' = \<lparr>rowCount = max (rowCount s) (Suc (row (bottomRight r))),
                  columnCount = max (columnCount s) (Suc (col (bottomRight r))),
                  cellAt = (\<lambda>i j.
                    if row (topLeft r) \<le> i \<and> i \<le> row (bottomRight r) \<and>
                       col (topLeft r) \<le> j \<and> j \<le> col (bottomRight r)
                    then v ! (i - row (topLeft r)) ! (j - col (topLeft r))
                    else cellAt s i j)\<rparr>;
            n = Suc (engine_sequence e)
        in Inr (\<lparr>engine_sheet = s', engine_sequence = n\<rparr>,
                \<lparr>affectedRange = r, newValues = v, sequence = n\<rparr>)
      else Inl ShapeMismatch)"

section \<open>The column-name encoding\<close>

declare bitLength.simps [simp del]
declare getExcelColumnName_loop.simps [simp del]
declare toString.simps [simp del]

lemmas binary64_defs =
  subtractOne_def roundedQuotient_def exponentOfQuotient_def roundNearestEven_def
  Math_floor_def bitLength.simps Let_def

lemma bitLength_le: "n < 2 ^ j \<Longrightarrow> bitLength n \<le> j"
proof (induction j arbitrary: n)
  case 0
  then show ?case by (simp add: bitLength.simps)
next
  case (Suc j)
  show ?case
  proof (cases "n = 0")
    case True
    then show ?thesis by (simp add: bitLength.simps)
  next
    case False
    have "n div 2 < 2 ^ j" using Suc.prems by simp
    then have "bitLength (n div 2) \<le> j" by (rule Suc.IH)
    then show ?thesis using False by (subst bitLength.simps) simp
  qed
qed

lemma roundNearestEven_bounds:
  assumes "0 < d"
  shows "n div d \<le> roundNearestEven n d \<and> 2 * (roundNearestEven n d * d) \<le> 2 * n + d"
proof -
  define q r x where "q = n div d" and "r = n mod d" and "x = q * d"
  have n: "n = x + r" by (simp add: q_def r_def x_def)
  have r: "0 \<le> r" "r < d" using assms by (simp_all add: r_def)
  have cases: "roundNearestEven n d = q \<or> (roundNearestEven n d = q + 1 \<and> d \<le> 2 * r)"
    unfolding roundNearestEven_def Let_def q_def[symmetric] r_def[symmetric] by auto
  then show ?thesis
  proof
    assume a: "roundNearestEven n d = q"
    then have "roundNearestEven n d * d = x" by (simp add: x_def)
    then show ?thesis using a r n assms by (simp add: q_def)
  next
    assume a: "roundNearestEven n d = q + 1 \<and> d \<le> 2 * r"
    then have "roundNearestEven n d * d = x + d" by (simp add: x_def algebra_simps)
    then show ?thesis using a n by (simp add: q_def)
  qed
qed

lemma roundNearestEven_one: "roundNearestEven n 1 = n"
  by (simp add: roundNearestEven_def)

lemma scaled_quotient_floor:
  assumes "0 \<le> t" "14 \<le> P"
  shows "roundNearestEven (t * P) 26 div P = t div 26"
proof -
  define m r X Y R where "m = t div 26" and "r = t mod 26" and "X = m * P" and "Y = r * P"
    and "R = roundNearestEven (t * P) 26"
  have r: "0 \<le> r" "r \<le> 25" by (simp_all add: r_def)
  have "t = 26 * m + r" by (simp add: m_def r_def)
  then have tP: "t * P = 26 * X + Y" by (simp add: X_def Y_def algebra_simps)
  have Y: "0 \<le> Y" "Y \<le> 25 * P"
    using r assms(2) by (simp_all add: Y_def mult_right_mono)
  have "(26 * X + Y) div 26 = X + Y div 26" by simp
  moreover have "0 \<le> Y div 26" using Y(1) by (simp add: pos_imp_zdiv_nonneg_iff)
  ultimately have low: "X \<le> (t * P) div 26" unfolding tP by simp
  have b: "(t * P) div 26 \<le> R" "2 * (R * 26) \<le> 2 * (t * P) + 26"
    using roundNearestEven_bounds[of 26 "t * P"] by (simp_all add: R_def)
  have lo: "X \<le> R" using low b(1) by simp
  have hi: "R < X + P" using b(2) Y(2) assms(2) unfolding tP by simp
  have "R = P * m + (R - X)" by (simp add: X_def)
  moreover have "0 \<le> R - X" using lo by simp
  moreover have "R - X < P" using hi by simp
  ultimately have "R div P = m" by (rule int_div_pos_eq)
  then show ?thesis by (simp add: R_def m_def)
qed

lemma exponentOfQuotient_26:
  assumes "0 < t" "t < 2 ^ 53"
  shows "exponentOfQuotient t 26 \<le> - 4"
proof (cases "26 \<le> t")
  case True
  have "t div 26 < 2 ^ 49" using assms(2) by simp
  then have "nat (t div 26) < 2 ^ 49" by simp
  then have "bitLength (nat (t div 26)) \<le> 49" by (rule bitLength_le)
  then show ?thesis using True by (simp add: exponentOfQuotient_def)
next
  case False
  then show ?thesis by (simp add: exponentOfQuotient_def)
qed

lemma floor_quotient_exact:
  assumes "0 \<le> t" "t < 2 ^ 53"
  shows "Math_floor (roundedQuotient t 26) = t div 26"
proof (cases "t = 0")
  case True
  then show ?thesis by (simp add: roundedQuotient_def Math_floor_def)
next
  case False
  define e where "e = exponentOfQuotient t 26"
  have e: "e \<le> - 4" using exponentOfQuotient_26[of t] assms False by (simp add: e_def)
  define P where "P = (2::int) ^ nat (- e)"
  have "(2::int) ^ 4 \<le> 2 ^ nat (- e)" using e by (intro power_increasing) simp_all
  then have P: "14 \<le> P" by (simp add: P_def)
  have "Math_floor (roundedQuotient t 26) = roundNearestEven (t * P) 26 div P"
    using False e by (simp add: roundedQuotient_def Math_floor_def e_def[symmetric] P_def Let_def)
  then show ?thesis using scaled_quotient_floor[OF assms(1) P] by simp
qed

lemma round_integer_exact:
  assumes "1 \<le> m" "m < 2 ^ 53"
  shows "Math_floor (roundedQuotient m 1) = m"
proof -
  define e where "e = exponentOfQuotient m 1"
  have "nat m < 2 ^ 53" using assms by simp
  then have "bitLength (nat m) \<le> 53" by (rule bitLength_le)
  then have e: "e \<le> 0" using assms by (simp add: e_def exponentOfQuotient_def)
  show ?thesis
  proof (cases "e = 0")
    case True
    then show ?thesis using assms
      by (simp add: roundedQuotient_def Math_floor_def e_def[symmetric] roundNearestEven_one)
  next
    case False
    with e have "e < 0" by simp
    then show ?thesis using assms
      by (simp add: roundedQuotient_def Math_floor_def e_def[symmetric] roundNearestEven_one Let_def)
  qed
qed

lemma subtractOne_exact:
  assumes "0 \<le> x" "x \<le> 2 ^ 53"
  shows "subtractOne x = x - 1"
proof -
  consider "x = 0" | "x = 1" | "2 \<le> x" using assms(1) by linarith
  then show ?thesis
  proof cases
    case 1
    then show ?thesis using round_integer_exact[of 1] by (simp add: subtractOne_def)
  next
    case 2
    then show ?thesis by (simp add: subtractOne_def roundedQuotient_def Math_floor_def)
  next
    case 3
    then have "Math_floor (roundedQuotient (x - 1) 1) = x - 1"
      using assms(2) by (intro round_integer_exact) simp_all
    then show ?thesis using 3 by (simp add: subtractOne_def Let_def)
  qed
qed

lemma next_index_exact:
  assumes "0 \<le> t" "t < 2 ^ 53"
  shows "subtractOne (Math_floor (roundedQuotient t 26)) = t div 26 - 1"
proof -
  have "0 \<le> t div 26" using assms(1) by (simp add: pos_imp_zdiv_nonneg_iff)
  moreover have "t div 26 \<le> 2 ^ 53" using assms by simp
  ultimately show ?thesis
    by (simp add: floor_quotient_exact[OF assms] subtractOne_exact)
qed


text \<open>The accumulator of the loop is only ever extended at the front.\<close>

lemma getExcelColumnName_loop_append:
  "getExcelColumnName_loop t acc = getExcelColumnName_loop t [] @ acc"
proof -
  define Q where "Q = (\<lambda>(t::int) (a::string).
    \<forall>acc. getExcelColumnName_loop t acc = getExcelColumnName_loop t [] @ acc)"
  have "Q t []"
  proof (rule getExcelColumnName_loop.induct[of Q])
    fix tempIndex :: int and columnName :: string
    assume IH: "\<And>x xa. 0 \<le> tempIndex \<Longrightarrow> x = tempIndex mod 26 \<Longrightarrow>
        xa = char_of (65 + x) # columnName \<Longrightarrow>
        Q (subtractOne (Math_floor (roundedQuotient tempIndex 26))) xa"
    show "Q tempIndex columnName"
    proof (cases "tempIndex \<ge> 0")
      case True
      define c where "c = char_of (65 + tempIndex mod 26)"
      define t' where "t' = subtractOne (Math_floor (roundedQuotient tempIndex 26))"
      have "Q t' (c # columnName)"
        unfolding t'_def c_def using True by (rule IH[OF _ refl refl])
      then have next_append:
        "getExcelColumnName_loop t' a = getExcelColumnName_loop t' [] @ a" for a
        unfolding Q_def by blast
      have unfold: "getExcelColumnName_loop tempIndex a = getExcelColumnName_loop t' (c # a)" for a
        using True by (subst getExcelColumnName_loop.simps) (simp add: Let_def c_def t'_def)
      have "getExcelColumnName_loop tempIndex acc = getExcelColumnName_loop tempIndex [] @ acc"
        for acc
      proof -
        have "getExcelColumnName_loop tempIndex acc = getExcelColumnName_loop t' [] @ (c # acc)"
          using next_append[of "c # acc"] unfold by simp
        moreover have "getExcelColumnName_loop tempIndex [] = getExcelColumnName_loop t' [] @ [c]"
          using next_append[of "[c]"] unfold by simp
        ultimately show ?thesis by simp
      qed
      then show ?thesis unfolding Q_def by blast
    next
      case False
      then show ?thesis unfolding Q_def by (simp add: getExcelColumnName_loop.simps)
    qed
  qed
  then show ?thesis unfolding Q_def by blast
qed

lemma getExcelColumnName_neg: "index < 0 \<Longrightarrow> getExcelColumnName index = []"
  by (simp add: getExcelColumnName_def getExcelColumnName_loop.simps)

text \<open>One round of the loop, for every index; and with the exact quotient below \<open>2\<^sup>5\<^sup>3\<close>.\<close>

lemma getExcelColumnName_round:
  "index \<ge> 0 \<Longrightarrow> getExcelColumnName index =
     getExcelColumnName (subtractOne (Math_floor (roundedQuotient index 26))) @
       [char_of (65 + index mod 26)]"
  unfolding getExcelColumnName_def
  using getExcelColumnName_loop_append
          [of "subtractOne (Math_floor (roundedQuotient index 26))" "[char_of (65 + index mod 26)]"]
  by (subst getExcelColumnName_loop.simps) (simp add: Let_def)

lemma getExcelColumnName_step:
  "index \<ge> 0 \<Longrightarrow> index < 2 ^ 53 \<Longrightarrow> getExcelColumnName index =
     getExcelColumnName (index div 26 - 1) @ [char_of (65 + index mod 26)]"
  using getExcelColumnName_round[of index] by (simp add: next_index_exact)

lemma getExcelColumnName_nonempty: "0 \<le> i \<Longrightarrow> getExcelColumnName i \<noteq> []"
  by (simp add: getExcelColumnName_round)

lemma of_char_letter:
  "0 \<le> r \<Longrightarrow> r < 26 \<Longrightarrow> of_char (char_of (65 + r :: int)) = 65 + r"
  by (simp add: of_char_of take_bit_eq_mod)

lemma letter_in_alphabet:
  assumes "0 \<le> r" "r < 26"
  shows "char_of (65 + r :: int) \<in> set upperCaseLetters"
proof -
  have "r \<in> {0..25}" using assms by simp
  also have "{0..25::int} = set [0..25]" by simp
  finally have "r \<in> set [0..25]" .
  then have "r \<in> {0,1,2,3,4,5,6,7,8,9,10,11,12,13,14,15,16,17,18,19,20,21,22,23,24,25}"
    by (simp add: upto.simps)
  then show ?thesis
    unfolding upperCaseLetters_def by (elim insertE emptyE) (simp_all add: char_of_def)
qed

lemma alphabet_codes:
  "c \<in> set upperCaseLetters \<Longrightarrow> (65::int) \<le> of_char c \<and> of_char c \<le> (90::int)"
  unfolding upperCaseLetters_def by auto

lemma getExcelColumnName_loop_alphabet:
  "list_all (\<lambda>c. c \<in> set upperCaseLetters) acc \<Longrightarrow>
   list_all (\<lambda>c. c \<in> set upperCaseLetters) (getExcelColumnName_loop t acc)"
proof (induction t acc rule: getExcelColumnName_loop.induct)
  case (1 tempIndex columnName)
  show ?case
  proof (cases "tempIndex \<ge> 0")
    case True
    have "char_of (65 + tempIndex mod 26) \<in> set upperCaseLetters"
      by (rule letter_in_alphabet) simp_all
    then have "list_all (\<lambda>c. c \<in> set upperCaseLetters)
                 (char_of (65 + tempIndex mod 26) # columnName)"
      using "1.prems" by simp
    then have "list_all (\<lambda>c. c \<in> set upperCaseLetters)
        (getExcelColumnName_loop (subtractOne (Math_floor (roundedQuotient tempIndex 26)))
           (char_of (65 + tempIndex mod 26) # columnName))"
      by (rule "1.IH"[OF True refl refl])
    then show ?thesis
      using True by (subst getExcelColumnName_loop.simps) (simp add: Let_def)
  next
    case False
    then show ?thesis using "1.prems" by (simp add: getExcelColumnName_loop.simps)
  qed
qed

lemma getExcelColumnName_alphabet:
  "list_all (\<lambda>c. c \<in> set upperCaseLetters) (getExcelColumnName t)"
  unfolding getExcelColumnName_def by (rule getExcelColumnName_loop_alphabet) simp

text \<open>
  Read as a bijective base-26 numeral, the name of an index \<open>t\<close> below \<open>2\<^sup>5\<^sup>3\<close> has the
  value \<open>t + 1\<close>.
\<close>

lemma value_getExcelColumnName:
  "-1 \<le> t \<Longrightarrow> t < 2 ^ 53 \<Longrightarrow>
   foldl (\<lambda>acc c. acc * 26 + (of_char c - 64)) 0 (getExcelColumnName t) = t + 1"
proof (induction "nat (t + 1)" arbitrary: t rule: less_induct)
  case less
  show ?case
  proof (cases "t \<ge> 0")
    case True
    have smaller: "nat (t div 26 - 1 + 1) < nat (t + 1)" using True by simp
    have ge: "-1 \<le> t div 26 - 1" using True by simp
    have lt: "t div 26 - 1 < 2 ^ 53" using less.prems(2) True by simp
    have r: "0 \<le> t mod 26" "t mod 26 < 26" by simp_all
    show ?thesis
      using less.hyps[OF smaller ge lt] True less.prems(2)
      by (simp add: getExcelColumnName_step of_char_letter[OF r])
  next
    case False
    with less.prems have "t = -1" by simp
    then show ?thesis by (simp add: getExcelColumnName_neg)
  qed
qed

lemma getExcelColumnName_inj:
  assumes "0 \<le> i" "i < 2 ^ 53" "0 \<le> j" "j < 2 ^ 53"
    and "getExcelColumnName i = getExcelColumnName j"
  shows "i = j"
proof -
  have "i + 1 = foldl (\<lambda>acc c. acc * 26 + (of_char c - 64)) 0 (getExcelColumnName i)"
    using assms(1,2) by (simp add: value_getExcelColumnName)
  also have "\<dots> = j + 1"
    using assms(3,4,5) by (simp add: value_getExcelColumnName)
  finally show ?thesis by simp
qed

lemma getExcelColumnName_of_value:
  "list_all (\<lambda>c. c \<in> set upperCaseLetters) s \<Longrightarrow>
   foldl (\<lambda>acc c. acc * 26 + (of_char c - 64)) 0 s \<le> (2::int) ^ 53 \<Longrightarrow>
   getExcelColumnName (foldl (\<lambda>acc c. acc * 26 + (of_char c - 64)) 0 s - 1) = s
   \<and> (0::int) \<le> foldl (\<lambda>acc c. acc * 26 + (of_char c - 64)) 0 s"
proof (induction s rule: rev_induct)
  case Nil
  then show ?case by (simp add: getExcelColumnName_neg)
next
  case (snoc c s)
  define v where "v = foldl (\<lambda>acc c. acc * 26 + (of_char c - 64)) (0::int) s"
  define d where "d = (of_char c :: int) - 65"
  have "c \<in> set upperCaseLetters" using snoc.prems by simp
  then have "(65::int) \<le> of_char c" "of_char c \<le> (90::int)"
    using alphabet_codes by blast+
  then have d: "0 \<le> d" "d < 26" by (simp_all add: d_def)
  have val: "foldl (\<lambda>acc c. acc * 26 + (of_char c - 64)) 0 (s @ [c]) - 1 = v * 26 + d"
    by (simp add: v_def d_def)
  have bound: "v * 26 + d < 2 ^ 53" using snoc.prems(2) val by simp
  have letters: "list_all (\<lambda>c. c \<in> set upperCaseLetters) s" using snoc.prems(1) by simp
  have v_small: "v \<le> 2 ^ 53"
  proof (rule ccontr)
    assume "\<not> v \<le> 2 ^ 53"
    then have "2 ^ 53 < v" by simp
    then have "2 ^ 53 < v * 26 + d" using d by simp
    with bound show False by simp
  qed
  have IH: "getExcelColumnName (v - 1) = s" "0 \<le> v"
    using snoc.IH[OF letters] v_small by (simp_all add: v_def)
  have nonneg: "0 \<le> v * 26 + d" using IH(2) d by simp
  have m: "(v * 26 + d) mod 26 = d" using d by simp
  have dv: "(v * 26 + d) div 26 = v" using d by simp
  have ch: "char_of (65 + d) = c" by (simp add: d_def)
  have enc: "getExcelColumnName (v * 26 + d) = s @ [c]"
    using getExcelColumnName_step[OF nonneg bound] by (simp only: m dv ch IH)
  have "(0::int) \<le> foldl (\<lambda>acc c. acc * 26 + (of_char c - 64)) 0 (s @ [c])"
    using val nonneg by linarith
  with enc val show ?case by simp
qed

lemma div26_bounds:
  fixes a i :: int
  shows "(a \<le> i div 26 - 1 \<and> i div 26 - 1 < 26 * (a + 1)) \<longleftrightarrow>
         (26 * (a + 1) \<le> i \<and> i < 26 * (26 * (a + 1) + 1))"
proof -
  define q r where "q = i div 26" and "r = i mod 26"
  have i: "i = 26 * q + r" and r: "0 \<le> r" "r < 26"
    by (simp_all add: q_def r_def)
  have lo: "a \<le> q - 1 \<longleftrightarrow> 26 * (a + 1) \<le> 26 * q + r"
  proof
    assume "a \<le> q - 1" then show "26 * (a + 1) \<le> 26 * q + r" using r by simp
  next
    assume "26 * (a + 1) \<le> 26 * q + r" then show "a \<le> q - 1" using r by simp
  qed
  have hi: "q - 1 < 26 * (a + 1) \<longleftrightarrow> 26 * q + r < 26 * (26 * (a + 1) + 1)"
  proof
    assume "q - 1 < 26 * (a + 1)"
    then show "26 * q + r < 26 * (26 * (a + 1) + 1)" using r by simp
  next
    assume "26 * q + r < 26 * (26 * (a + 1) + 1)"
    then show "q - 1 < 26 * (a + 1)" using r by simp
  qed
  have main: "(a \<le> q - 1 \<and> q - 1 < 26 * (a + 1)) \<longleftrightarrow>
        (26 * (a + 1) \<le> 26 * q + r \<and> 26 * q + r < 26 * (26 * (a + 1) + 1))"
    by (simp only: lo hi)
  have recomb: "26 * q + r = i" using i by simp
  from main have "(a \<le> q - 1 \<and> q - 1 < 26 * (a + 1)) \<longleftrightarrow>
        (26 * (a + 1) \<le> i \<and> i < 26 * (26 * (a + 1) + 1))"
    by (simp only: recomb)
  then show ?thesis by (simp only: q_def)
qed

lemma length_getExcelColumnName:
  "0 \<le> i \<Longrightarrow> i < 2 ^ 53 \<Longrightarrow> length (getExcelColumnName i) = Suc k \<longleftrightarrow>
     firstIndexOfLength k \<le> i \<and> i < firstIndexOfLength (Suc k)"
proof (induction "nat (i + 1)" arbitrary: i k rule: less_induct)
  case less
  have fpos: "0 \<le> firstIndexOfLength n" for n by (induction n) simp_all
  note step = getExcelColumnName_step[OF less.prems]
  show ?case
  proof (cases "i < 26")
    case True
    then have "getExcelColumnName (i div 26 - 1) = []"
      using less.prems by (simp add: getExcelColumnName_neg)
    then have len: "length (getExcelColumnName i) = 1"
      by (simp add: step)
    show ?thesis
    proof (cases k)
      case 0
      then show ?thesis using len True less.prems by simp
    next
      case (Suc k')
      have "26 \<le> firstIndexOfLength (Suc k')" using fpos[of k'] by simp
      then show ?thesis using len True Suc by simp
    qed
  next
    case False
    then have ge: "0 \<le> i div 26 - 1" by simp
    have lt: "i div 26 - 1 < 2 ^ 53" using less.prems by simp
    have smaller: "nat (i div 26 - 1 + 1) < nat (i + 1)" using less.prems by simp
    have len: "length (getExcelColumnName i) = Suc (length (getExcelColumnName (i div 26 - 1)))"
      by (simp add: step)
    show ?thesis
    proof (cases k)
      case 0
      have "length (getExcelColumnName (i div 26 - 1)) \<noteq> 0"
        using getExcelColumnName_nonempty[OF ge] by simp
      then show ?thesis using len 0 False by simp
    next
      case (Suc k')
      have "length (getExcelColumnName i) = Suc k \<longleftrightarrow>
            firstIndexOfLength k' \<le> i div 26 - 1 \<and> i div 26 - 1 < firstIndexOfLength (Suc k')"
        using less.hyps[OF smaller ge lt, of k'] len Suc by simp
      also have "\<dots> \<longleftrightarrow> firstIndexOfLength k \<le> i \<and> i < firstIndexOfLength (Suc k)"
        unfolding Suc by (simp only: firstIndexOfLength.simps div26_bounds)
      finally show ?thesis .
    qed
  qed
qed

text \<open>Every valid name of up to eleven letters has an index below \<open>2\<^sup>5\<^sup>3\<close>.\<close>

lemma value_bound:
  "list_all (\<lambda>c. c \<in> set upperCaseLetters) s \<Longrightarrow>
   foldl (\<lambda>acc c. acc * 26 + (of_char c - 64)) (0::int) s + 1 \<le> 27 ^ length s"
proof (induction s rule: rev_induct)
  case Nil
  then show ?case by simp
next
  case (snoc c s)
  define v where "v = foldl (\<lambda>acc c. acc * 26 + (of_char c - 64)) (0::int) s"
  define w where "w = (27::int) ^ length s"
  have "c \<in> set upperCaseLetters" using snoc.prems by simp
  then have c: "of_char c \<le> (90::int)" using alphabet_codes by blast
  have "v + 1 \<le> w" using snoc by (simp add: v_def w_def)
  moreover have "1 \<le> w" by (simp add: w_def)
  ultimately have "v * 26 + (of_char c - 64) + 1 \<le> 27 * w" using c by arith
  then show ?case by (simp add: v_def w_def)
qed

lemma short_names_below_2_53:
  assumes "isColumnName s" "length s \<le> 11"
  shows "decodeColumnName s < 2 ^ 53"
proof -
  have "list_all (\<lambda>c. c \<in> set upperCaseLetters) s"
    using assms(1) by (simp add: isColumnName_def)
  then have "decodeColumnName s + 2 \<le> 27 ^ length s"
    using value_bound[of s] by (simp add: decodeColumnName_def)
  also have "(27::int) ^ length s \<le> 27 ^ 11"
    using assms(2) by (intro power_increasing) simp_all
  finally show ?thesis by simp
qed

text \<open>
  Claim C1. The encoder follows the bijective base-26 scheme on the sample points of the
  specification: index 0 is named A, 25 is Z, 26 is AA, 51 is AZ and 52 is BA.
\<close>

theorem getExcelColumnName_samples:
  "getExcelColumnName 0 = ''A'' \<and> getExcelColumnName 25 = ''Z'' \<and>
   getExcelColumnName 26 = ''AA'' \<and> getExcelColumnName 51 = ''AZ'' \<and>
   getExcelColumnName 52 = ''BA''"
  by (simp add: getExcelColumnName_def getExcelColumnName_loop.simps binary64_defs char_of_def)

text \<open>
  Claim C5. For every non-negative index the encoder yields a non-empty string made of
  the letters A to Z only, so no name contains the digit 0 (there is no name such as A0).
  For the index \<open>-1\<close> the loop body never runs and the encoder yields the empty string,
  which is the name of no non-negative index.
\<close>

theorem getExcelColumnName_letters_only:
  assumes "0 \<le> i"
  shows "getExcelColumnName i \<noteq> [] \<and>
         (\<forall>c \<in> set (getExcelColumnName i). c \<in> set upperCaseLetters) \<and>
         CHR ''0'' \<notin> set (getExcelColumnName i) \<and>
         getExcelColumnName (-1) = [] \<and>
         getExcelColumnName i \<noteq> getExcelColumnName (-1)"
proof -
  have nonempty: "getExcelColumnName i \<noteq> []"
    using assms by (rule getExcelColumnName_nonempty)
  have letters: "\<forall>c \<in> set (getExcelColumnName i). c \<in> set upperCaseLetters"
    using getExcelColumnName_alphabet[of i] by (simp add: list_all_iff)
  have "CHR ''0'' \<notin> set upperCaseLetters"
    by (simp add: upperCaseLetters_def)
  with letters have nozero: "CHR ''0'' \<notin> set (getExcelColumnName i)" by blast
  have minus: "getExcelColumnName (-1) = []"
    by (simp add: getExcelColumnName_neg)
  from nonempty letters nozero minus show ?thesis by simp
qed

theorem getExcelColumnName_letters_only_witness:
  "(0::int) \<le> 27 \<and> getExcelColumnName 27 = ''AB'' \<and>
   getExcelColumnName 27 \<noteq> [] \<and>
   set (getExcelColumnName 27) \<subseteq> set upperCaseLetters \<and>
   CHR ''0'' \<notin> set (getExcelColumnName 27) \<and>
   getExcelColumnName (-1) = [] \<and>
   getExcelColumnName 27 \<noteq> getExcelColumnName (-1)"
proof -
  have h: "(0::int) \<le> 27" by simp
  have v: "getExcelColumnName 27 = ''AB''"
    by (simp add: getExcelColumnName_def getExcelColumnName_loop.simps binary64_defs char_of_def)
  have "set (getExcelColumnName 27) \<subseteq> set upperCaseLetters"
    using getExcelColumnName_letters_only[OF h] by blast
  then show ?thesis using h v getExcelColumnName_letters_only[OF h] by simp
qed

text \<open>
  Claim C2, as stated, fails in two places. The length of the name does not grow at the
  powers of 26: the index \<open>26\<^sup>2 = 676\<close> is named ZA, as long as YZ before it, and the
  first three-letter name AAA belongs to the index 702, strictly between \<open>26\<^sup>2\<close> and
  \<open>26\<^sup>3\<close>. And encoding does not undo decoding for every valid name: the twelve-letter
  name GYINBKQDGXDY has the index 29273397577908248, a number that a double holds
  exactly; there the quotient by 26 is rounded up across an integer, and the encoder
  returns GYINBKQDGXEY.
\<close>

theorem column_name_round_trip_counterexample:
  "getExcelColumnName (26 ^ 2 - 1) = ''YZ'' \<and> getExcelColumnName (26 ^ 2) = ''ZA'' \<and>
   \<not> length (getExcelColumnName (26 ^ 2 - 1)) < length (getExcelColumnName (26 ^ 2)) \<and>
   getExcelColumnName 701 = ''ZZ'' \<and> getExcelColumnName 702 = ''AAA'' \<and>
   length (getExcelColumnName 701) < length (getExcelColumnName 702) \<and>
   (26::int) ^ 2 < 702 \<and> (702::int) < 26 ^ 3 \<and>
   isColumnName ''GYINBKQDGXDY'' \<and>
   decodeColumnName ''GYINBKQDGXDY'' = 29273397577908248 \<and>
   getExcelColumnName (decodeColumnName ''GYINBKQDGXDY'') = ''GYINBKQDGXEY'' \<and>
   getExcelColumnName (decodeColumnName ''GYINBKQDGXDY'') \<noteq> ''GYINBKQDGXDY''"
proof -
  have short: "getExcelColumnName (26 ^ 2 - 1) = ''YZ''" "getExcelColumnName (26 ^ 2) = ''ZA''"
    "getExcelColumnName 701 = ''ZZ''" "getExcelColumnName 702 = ''AAA''"
    by (simp_all add: getExcelColumnName_def getExcelColumnName_loop.simps binary64_defs
                      char_of_def)
  have valid: "isColumnName ''GYINBKQDGXDY''"
    by (simp add: isColumnName_def upperCaseLetters_def)
  have dec: "decodeColumnName ''GYINBKQDGXDY'' = 29273397577908248"
    by (simp add: decodeColumnName_def)
  have enc: "getExcelColumnName 29273397577908248 = ''GYINBKQDGXEY''"
    by (simp add: getExcelColumnName_def getExcelColumnName_loop.simps binary64_defs
                  char_of_def)
  show ?thesis using short valid dec enc by simp
qed

text \<open>
  Claim C2, amended. For every index \<open>i\<close> in [0, 10000), decoding the name of \<open>i\<close>
  gives \<open>i\<close> back. For every valid column name \<open>s\<close> whose index is below \<open>2\<^sup>5\<^sup>3\<close>
  (every name of up to eleven letters), encoding the index of \<open>s\<close> gives \<open>s\<close> back. For
  \<open>i\<close> in [0, 10000) the name of \<open>i\<close> has \<open>k + 1\<close> letters exactly when
  \<open>26 + \<dots> + 26\<^sup>k \<le> i < 26 + \<dots> + 26\<^sup>k\<^sup>+\<^sup>1\<close>: the length grows by one at the indices
  26 and 702 (sums of consecutive powers of 26), so index 25 is the one-letter Z and
  index 26 the two-letter AA.
\<close>

theorem column_name_round_trip:
  "(0 \<le> i \<and> i < 10000 \<longrightarrow> decodeColumnName (getExcelColumnName i) = i) \<and>
   (isColumnName s \<and> decodeColumnName s < 2 ^ 53 \<longrightarrow>
      getExcelColumnName (decodeColumnName s) = s) \<and>
   (0 \<le> i \<and> i < 10000 \<longrightarrow>
      (length (getExcelColumnName i) = Suc k \<longleftrightarrow>
         firstIndexOfLength k \<le> i \<and> i < firstIndexOfLength (Suc k)))"
proof (intro conjI impI)
  assume "0 \<le> i \<and> i < 10000"
  then show "decodeColumnName (getExcelColumnName i) = i"
    by (simp add: decodeColumnName_def value_getExcelColumnName)
next
  assume a: "isColumnName s \<and> decodeColumnName s < 2 ^ 53"
  then have "list_all (\<lambda>c. c \<in> set upperCaseLetters) s"
    by (simp add: isColumnName_def)
  moreover have "foldl (\<lambda>acc c. acc * 26 + (of_char c - 64)) 0 s \<le> (2::int) ^ 53"
    using a by (simp add: decodeColumnName_def)
  ultimately show "getExcelColumnName (decodeColumnName s) = s"
    unfolding decodeColumnName_def by (simp add: getExcelColumnName_of_value)
next
  assume "0 \<le> i \<and> i < 10000"
  then have "0 \<le> i" "i < 2 ^ 53" by simp_all
  then show "length (getExcelColumnName i) = Suc k \<longleftrightarrow>
         firstIndexOfLength k \<le> i \<and> i < firstIndexOfLength (Suc k)"
    by (rule length_getExcelColumnName)
qed

theorem column_name_round_trip_witness:
  "(0::int) \<le> 701 \<and> (701::int) < 10000 \<and> isColumnName ''ZZ'' \<and>
   decodeColumnName ''ZZ'' < 2 ^ 53 \<and>
   decodeColumnName (getExcelColumnName 701) = 701 \<and>
   getExcelColumnName (decodeColumnName ''ZZ'') = ''ZZ'' \<and>
   length (getExcelColumnName 701) = 2 \<and>
   firstIndexOfLength 1 = 26 \<and> firstIndexOfLength 2 = 702"
proof -
  have h1: "(0::int) \<le> 701 \<and> (701::int) < 10000" by simp
  have h2: "isColumnName ''ZZ''" by (simp add: isColumnName_def upperCaseLetters_def)
  have h3: "decodeColumnName ''ZZ'' < 2 ^ 53" by (simp add: decodeColumnName_def)
  have f: "firstIndexOfLength 1 = 26" "firstIndexOfLength 2 = 702" by code_simp+
  show ?thesis
    using h1 h2 h3 f column_name_round_trip[of 701 "''ZZ''" 1] by simp
qed


section \<open>Component App: messages, attachment, upload and sending\<close>





text \<open>
  Claim C6. When the session identifier is set, the effect opens the connection and
  requests the full grid of that session once: its commands are exactly one socket and
  one fetch, nothing that asks for earlier deltas. The fetched snapshot replaces the grid
  state as a whole. While no identifier is set the effect does nothing.
\<close>

theorem attach_fetches_snapshot_once:
  "(truthy (clientId st) \<longrightarrow>
      snd (App_useEffect st) = [NewWebSocket (clientId st), FetchExcelData (clientId st)] \<and>
      count_list (snd (App_useEffect st)) (FetchExcelData (clientId st)) = 1 \<and>
      fetchExcelData (fst (App_useEffect st)) (FetchResponse True status (Inr snapshot)) =
        (fst (App_useEffect st))\<lparr>excelData := snapshot\<rparr>) \<and>
   (\<not> truthy (clientId st) \<longrightarrow> App_useEffect st = (st, []))"
  by (simp add: App_useEffect_def fetchExcelData_def Let_def)

theorem attach_fetches_snapshot_once_witness:
  "truthy (JStr ''c1'') \<and>
   snd (App_useEffect (initial_state\<lparr>clientId := JStr ''c1''\<rparr>)) =
     [NewWebSocket (JStr ''c1''), FetchExcelData (JStr ''c1'')] \<and>
   count_list (snd (App_useEffect (initial_state\<lparr>clientId := JStr ''c1''\<rparr>)))
     (FetchExcelData (JStr ''c1'')) = 1 \<and>
   \<not> truthy (clientId initial_state) \<and>
   App_useEffect initial_state = (initial_state, [])"
proof -
  have h1: "truthy (clientId (initial_state\<lparr>clientId := JStr ''c1''\<rparr>))" by simp
  have h2: "\<not> truthy (clientId initial_state)" by (simp add: initial_state_def)
  show ?thesis
    using h1 h2
      attach_fetches_snapshot_once[of "initial_state\<lparr>clientId := JStr ''c1''\<rparr>" 200 JNull]
      attach_fetches_snapshot_once[of initial_state 200 JNull]
    by simp
qed

text \<open>
  Claim C7. The session identifier changes only through a successful upload response.
  When the upload request throws or its response is not ok, the identifier keeps its
  value, so the app stays on the upload screen if it was there, the fixed error text
  is reported and \<^verbatim>\<open>loading\<close> is cleared.
\<close>

theorem clientId_only_from_successful_upload:
  "(outcome = FetchThrows \<or> outcome = FetchResponse False status body \<longrightarrow>
      clientId (handleFileUpload st outcome) = clientId st \<and>
      showsFileUpload (handleFileUpload st outcome) = showsFileUpload st \<and>
      error (handleFileUpload st outcome) = Some ''Failed to upload file. Please try again.'' \<and>
      \<not> loading (handleFileUpload st outcome)) \<and>
   (clientId (handleFileUpload st outcome) \<noteq> clientId st \<longrightarrow>
      (\<exists>status' data. outcome = FetchResponse True status' (Inr data) \<and>
         getProp data ''client_id'' = Inr (clientId (handleFileUpload st outcome))))"
  by (auto simp: handleFileUpload_def showsFileUpload_def Let_def
           split: fetch_outcome.splits sum.splits if_splits)

theorem clientId_only_from_successful_upload_witness:
  "clientId (handleFileUpload initial_state (FetchResponse False 500 (Inl SyntaxError))) = JNull \<and>
   showsFileUpload (handleFileUpload initial_state (FetchResponse False 500 (Inl SyntaxError))) \<and>
   error (handleFileUpload initial_state (FetchResponse False 500 (Inl SyntaxError))) =
     Some ''Failed to upload file. Please try again.'' \<and>
   clientId (handleFileUpload initial_state
      (FetchResponse True 200 (Inr (JObj [(''client_id'', JStr ''c1'')])))) = JStr ''c1''"
proof -
  have c: "clientId (handleFileUpload initial_state
      (FetchResponse True 200 (Inr (JObj [(''client_id'', JStr ''c1'')])))) = JStr ''c1''"
    by (simp add: handleFileUpload_def initial_state_def)
  have s: "showsFileUpload initial_state" "clientId initial_state = JNull"
    by (simp_all add: showsFileUpload_def initial_state_def)
  show ?thesis
    using c s
      clientId_only_from_successful_upload
        [of "FetchResponse False 500 (Inl SyntaxError)" 500 "Inl SyntaxError" initial_state]
      clientId_only_from_successful_upload
        [of "FetchResponse True 200 (Inr (JObj [(''client_id'', JStr ''c1'')]))" 200
            "Inl SyntaxError" initial_state]
    by simp
qed

text \<open>
  Claim C8. When there is no socket, or the socket is not in the OPEN state,
  \<^verbatim>\<open>sendMessage\<close> only sets the error: the message history is unchanged and nothing is
  transmitted. When the socket is OPEN, the user message is appended to the history and
  the message is sent; a frame is sent only in that case.
\<close>

theorem sendMessage_needs_open_socket:
  "(socket st = None \<or> (\<exists>ws. socket st = Some ws \<and> readyState ws \<noteq> WebSocket_OPEN) \<longrightarrow>
      sendMessage st message =
        (st\<lparr>error := Some ''Connection lost. Please refresh the page.''\<rparr>, []) \<and>
      messages (fst (sendMessage st message)) = messages st) \<and>
   ((\<exists>ws. socket st = Some ws \<and> readyState ws = WebSocket_OPEN) \<longrightarrow>
      sendMessage st message =
        (st\<lparr>messages := messages st @ [\<lparr>role = ''user'', content = JStr message\<rparr>]\<rparr>,
         [SocketSend (JObj [(''message'', JStr message)])])) \<and>
   (snd (sendMessage st message) \<noteq> [] \<longrightarrow>
      (\<exists>ws. socket st = Some ws \<and> readyState ws = WebSocket_OPEN))"
  by (auto simp: sendMessage_def)

theorem sendMessage_needs_open_socket_witness:
  "sendMessage (initial_state\<lparr>socket := Some \<lparr>ws_clientId = JStr ''c1'', readyState = 0\<rparr>\<rparr>) ''hi'' =
     (initial_state\<lparr>socket := Some \<lparr>ws_clientId = JStr ''c1'', readyState = 0\<rparr>,
                     error := Some ''Connection lost. Please refresh the page.''\<rparr>, []) \<and>
   sendMessage (initial_state\<lparr>socket := Some \<lparr>ws_clientId = JStr ''c1'', readyState = 1\<rparr>\<rparr>) ''hi'' =
     (initial_state\<lparr>socket := Some \<lparr>ws_clientId = JStr ''c1'', readyState = 1\<rparr>,
                     messages := [\<lparr>role = ''user'', content = JStr ''hi''\<rparr>]\<rparr>,
      [SocketSend (JObj [(''message'', JStr ''hi'')])])"
  using sendMessage_needs_open_socket
          [of "initial_state\<lparr>socket := Some \<lparr>ws_clientId = JStr ''c1'', readyState = 0\<rparr>\<rparr>" "''hi''"]
        sendMessage_needs_open_socket
          [of "initial_state\<lparr>socket := Some \<lparr>ws_clientId = JStr ''c1'', readyState = 1\<rparr>\<rparr>" "''hi''"]
  by (simp add: WebSocket_OPEN_def initial_state_def)

section \<open>Component ExcelViewer: columns and rows\<close>

lemma toString_last: "toString n \<noteq> [] \<and> last (toString n) = char_of (48 + n mod 10)"
  by (subst toString.simps, subst (2) toString.simps) simp

lemma toString_not_id: "toString n \<noteq> ''id''"
proof
  assume "toString n = ''id''"
  then have "last (toString n) = CHR ''d''" by simp
  then have "char_of (48 + n mod 10) = CHR ''d''" using toString_last[of n] by simp
  then have "of_char (char_of (48 + n mod 10)) = (of_char (CHR ''d'') :: nat)" by simp
  moreover have "n mod 10 < 10" by simp
  ultimately show False by (simp add: of_char_of take_bit_eq_mod)
qed

lemma spreadProps_array_no_id: "map_of (spreadProps (JArr xs)) ''id'' = None"
proof -
  have "''id'' \<notin> set (map toString [0..<length xs])"
  proof
    assume "''id'' \<in> set (map toString [0..<length xs])"
    then obtain i where "toString i = ''id''" by auto
    with toString_not_id show False by blast
  qed
  then have "''id'' \<notin> fst ` set (zip (map toString [0..<length xs]) xs)"
    by (metis in_set_zipE imageE surjective_pairing)
  then show ?thesis by (simp add: map_of_eq_None_iff)
qed

lemma map_of_foldl_update_other:
  "map_of kvs k0 = None \<Longrightarrow>
   map_of (foldl (\<lambda>obj (k, v). AList.update k v obj) obj kvs) k0 = map_of obj k0"
proof (induction kvs arbitrary: obj)
  case Nil
  then show ?case by simp
next
  case (Cons kv kvs)
  obtain k v where kv: "kv = (k, v)" by (cases kv)
  from Cons.prems kv have ne: "k \<noteq> k0" and rest: "map_of kvs k0 = None"
    by (simp_all split: if_splits)
  show ?case
    using Cons.IH[OF rest, of "AList.update k v obj"] ne
    by (simp add: kv update_conv')
qed

lemma formatRow_id:
  assumes "map_of (spreadProps r) ''id'' = None"
  shows "getProp (formatRow rowIndex r) ''id'' = Inr (JNum (real rowIndex))"
  unfolding formatRow_def
  by (simp add: map_of_foldl_update_other[OF assms])

lemma makeColumns_names:
  "map name (makeColumns n) = map (\<lambda>i. getExcelColumnName (int i)) [0..<n]"
  by (simp add: makeColumns_def comp_def)

lemma makeColumns_distinct:
  assumes "int n \<le> 2 ^ 53"
  shows "distinct (map name (makeColumns n))"
proof -
  have "inj_on (\<lambda>i. getExcelColumnName (int i)) (set [0..<n])"
  proof (rule inj_onI)
    fix x y
    assume x: "x \<in> set [0..<n]" and y: "y \<in> set [0..<n]"
      and eq: "getExcelColumnName (int x) = getExcelColumnName (int y)"
    have "int x < 2 ^ 53" "int y < 2 ^ 53" using x y assms by simp_all
    then have "int x = int y" using eq by (intro getExcelColumnName_inj) simp_all
    then show "x = y" by simp
  qed
  then show ?thesis
    unfolding makeColumns_names by (simp add: distinct_map)
qed

text \<open>
  Claim C9. For a grid whose metadata declares \<open>n\<close> columns (a valid array length),
  the viewer builds exactly \<open>n\<close> column definitions; their names are, in order, the
  encodings of the indices 0 to \<open>n - 1\<close>, hence pairwise distinct. It builds one row
  object per data row, and the \<^verbatim>\<open>id\<close> of the row object is the zero-based index of
  the row. The rows are rows of cells (JSON arrays) or, more generally, values without a
  property of their own called \<^verbatim>\<open>id\<close>, which the spread would copy over the index.
\<close>

theorem ExcelViewer_columns_and_rows:
  assumes "n \<le> 2 ^ 32 - 1"
    and "\<forall>row \<in> set rs. (\<exists>cells. row = JArr cells) \<or> map_of (spreadProps row) ''id'' = None"
  shows "\<exists>vs'. ExcelViewer_useEffect vs (JArr rs) (Some \<lparr>columns = n\<rparr>) = Inr vs' \<and>
           length (viewer_columns vs') = nat n \<and>
           map name (viewer_columns vs') = map (\<lambda>i. getExcelColumnName (int i)) [0..<nat n] \<and>
           distinct (map name (viewer_columns vs')) \<and>
           length (viewer_rows vs') = length rs \<and>
           (\<forall>k < length rs. getProp (viewer_rows vs' ! k) ''id'' = Inr (JNum (real k)))"
proof -
  define vs' where "vs' = \<lparr>viewer_columns = makeColumns (nat n),
     viewer_rows = map (\<lambda>(rowIndex, row). formatRow rowIndex row) (zip [0..<length rs] rs)\<rparr>"
  have run: "ExcelViewer_useEffect vs (JArr rs) (Some \<lparr>columns = n\<rparr>) = Inr vs'"
    using assms(1) by (simp add: ExcelViewer_useEffect_def Let_def vs'_def)
  have len: "length (viewer_columns vs') = nat n"
    by (simp add: vs'_def makeColumns_def)
  have names: "map name (viewer_columns vs') = map (\<lambda>i. getExcelColumnName (int i)) [0..<nat n]"
    by (simp add: vs'_def makeColumns_names)
  have "int (nat n) \<le> 2 ^ 53" using assms(1) by simp
  then have dist: "distinct (map name (viewer_columns vs'))"
    by (simp add: vs'_def makeColumns_distinct)
  have rows: "length (viewer_rows vs') = length rs"
    by (simp add: vs'_def)
  have ids: "getProp (viewer_rows vs' ! k) ''id'' = Inr (JNum (real k))" if "k < length rs" for k
  proof -
    have "rs ! k \<in> set rs" using that by simp
    with assms(2) have "(\<exists>cells. rs ! k = JArr cells) \<or>
        map_of (spreadProps (rs ! k)) ''id'' = None"
      by (rule bspec)
    then have "map_of (spreadProps (rs ! k)) ''id'' = None"
    proof (elim disjE exE)
      fix cells assume "rs ! k = JArr cells"
      then show ?thesis by (simp only: spreadProps_array_no_id)
    qed
    moreover have "viewer_rows vs' ! k = formatRow k (rs ! k)"
      using that by (simp add: vs'_def)
    ultimately show ?thesis by (simp add: formatRow_id)
  qed
  show ?thesis
  proof (intro exI[of _ vs'] conjI allI impI)
    show "ExcelViewer_useEffect vs (JArr rs) (Some \<lparr>columns = n\<rparr>) = Inr vs'" by (rule run)
    show "length (viewer_columns vs') = nat n" by (rule len)
    show "map name (viewer_columns vs') = map (\<lambda>i. getExcelColumnName (int i)) [0..<nat n]"
      by (rule names)
    show "distinct (map name (viewer_columns vs'))" by (rule dist)
    show "length (viewer_rows vs') = length rs" by (rule rows)
    show "getProp (viewer_rows vs' ! k) ''id'' = Inr (JNum (real k))" if "k < length rs" for k
      using that by (rule ids)
  qed
qed





theorem ExcelViewer_columns_and_rows_witness:
  "(3::int) \<le> 2 ^ 32 - 1 \<and>
   list_all (\<lambda>r. map_of (spreadProps r) ''id'' = None)
     [JArr [JStr ''a'', JNum 1], JObj [(''0'', JStr ''b'')]] \<and>
   ExcelViewer_useEffect \<lparr>viewer_columns = [], viewer_rows = []\<rparr>
     (JArr [JArr [JStr ''a'', JNum 1], JObj [(''0'', JStr ''b'')]]) (Some \<lparr>columns = 3\<rparr>) =
   Inr \<lparr>viewer_columns =
          [\<lparr>key = ''0'', name = ''A'', resizable = True, sortable = True, width = 120\<rparr>,
           \<lparr>key = ''1'', name = ''B'', resizable = True, sortable = True, width = 120\<rparr>,
           \<lparr>key = ''2'', name = ''C'', resizable = True, sortable = True, width = 120\<rparr>],
        viewer_rows =
          [JObj [(''id'', JNum 0), (''0'', JStr ''a''), (''1'', JNum 1)],
           JObj [(''id'', JNum 1), (''0'', JStr ''b'')]]\<rparr>"
proof -
  let ?rs = "[JArr [JStr ''a'', JNum 1], JObj [(''0'', JStr ''b'')]]"
  have digits: "toString 0 = ''0''" "toString (Suc 0) = ''1''" "toString (Suc (Suc 0)) = ''2''"
    by code_simp+
  have letters: "getExcelColumnName 0 = ''A''" "getExcelColumnName 1 = ''B''"
    "getExcelColumnName 2 = ''C''"
    by (simp_all add: getExcelColumnName_def getExcelColumnName_loop.simps binary64_defs
                      char_of_def)
  have upt3: "[0..<3] = [0, Suc 0, Suc (Suc 0)]" "[0..<Suc (Suc 0)] = [0, Suc 0]"
    by (simp_all add: upt_rec)
  have h1: "(3::int) \<le> 2 ^ 32 - 1" by simp
  have h2: "list_all (\<lambda>r. map_of (spreadProps r) ''id'' = None) ?rs"
    by (simp add: digits upt3)
  then have h2': "\<forall>r \<in> set ?rs. (\<exists>cells. r = JArr cells) \<or> map_of (spreadProps r) ''id'' = None"
    by (simp add: list_all_iff)
  have run: "ExcelViewer_useEffect \<lparr>viewer_columns = [], viewer_rows = []\<rparr>
     (JArr ?rs) (Some \<lparr>columns = 3\<rparr>) =
   Inr \<lparr>viewer_columns =
          [\<lparr>key = ''0'', name = ''A'', resizable = True, sortable = True, width = 120\<rparr>,
           \<lparr>key = ''1'', name = ''B'', resizable = True, sortable = True, width = 120\<rparr>,
           \<lparr>key = ''2'', name = ''C'', resizable = True, sortable = True, width = 120\<rparr>],
        viewer_rows =
          [JObj [(''id'', JNum 0), (''0'', JStr ''a''), (''1'', JNum 1)],
           JObj [(''id'', JNum 1), (''0'', JStr ''b'')]]\<rparr>"
    by (simp add: ExcelViewer_useEffect_def makeColumns_def formatRow_def Let_def
                  digits letters upt3)
  show ?thesis
    using h1 h2 run
      ExcelViewer_columns_and_rows[OF h1 h2', of "\<lparr>viewer_columns = [], viewer_rows = []\<rparr>"]
    by simp
qed

section \<open>Component FileUpload: accepted files\<close>









text \<open>
  Two remarks on the edges of the upload test. A type that names an inherited property
  is accepted whatever the file name is; and on the drag-and-drop path a rejected file
  always leaves an earlier selection in place.
\<close>

lemma inherited_key_accepted:
  "isFileSupported \<lparr>file_type = ''constructor'', file_name = ''notes.txt''\<rparr>"
  by (simp add: isFileSupported_def supportedFormats_truthy_def supportedFormats_def
                objectPrototypeKeys_def)

lemma handleDrop_rejected_keeps_selection:
  "\<not> isFileSupported f \<Longrightarrow> selectedFile (fst (handleDrop st (Some f))) = selectedFile st"
  by (simp add: handleDrop_def)

section \<open>The spreadsheet engine of the specification\<close>

lemma length_rangeRows: "length (rangeRows r) = Suc (row (bottomRight r)) - row (topLeft r)"
  by (simp add: rangeRows_def del: upt_Suc)

lemma length_rangeCols: "length (rangeCols r) = Suc (col (bottomRight r)) - col (topLeft r)"
  by (simp add: rangeCols_def del: upt_Suc)

lemma nth_rangeRows:
  "k < Suc (row (bottomRight r)) - row (topLeft r) \<Longrightarrow> rangeRows r ! k = row (topLeft r) + k"
  by (simp add: rangeRows_def del: upt_Suc)

lemma nth_rangeCols:
  "k < Suc (col (bottomRight r)) - col (topLeft r) \<Longrightarrow> rangeCols r ! k = col (topLeft r) + k"
  by (simp add: rangeCols_def del: upt_Suc)

text \<open>
  Claim C4. For every range (its top-left corner not below and not right of its
  bottom-right corner, as the data model has it) and every rectangular grid of values
  with exactly the rows and columns of the range, \<^verbatim>\<open>writeRange\<close> succeeds and a following
  \<^verbatim>\<open>readRange\<close> of the same range on the resulting sheet returns exactly the values
  written.
\<close>

theorem writeRange_then_readRange:
  assumes "wellOrdered r" and "shapeMatches r v"
  shows "\<exists>e' d. writeRange e r v = Inr (e', d) \<and> readRange e' r = Inr v"
proof -
  define s' where "s' = \<lparr>rowCount = max (rowCount (engine_sheet e)) (Suc (row (bottomRight r))),
                  columnCount = max (columnCount (engine_sheet e)) (Suc (col (bottomRight r))),
                  cellAt = (\<lambda>i j.
                    if row (topLeft r) \<le> i \<and> i \<le> row (bottomRight r) \<and>
                       col (topLeft r) \<le> j \<and> j \<le> col (bottomRight r)
                    then v ! (i - row (topLeft r)) ! (j - col (topLeft r))
                    else cellAt (engine_sheet e) i j)\<rparr>"
  define e' where "e' = \<lparr>engine_sheet = s', engine_sequence = Suc (engine_sequence e)\<rparr>"
  define d where "d = \<lparr>affectedRange = r, newValues = v, sequence = Suc (engine_sequence e)\<rparr>"
  have w: "writeRange e r v = Inr (e', d)"
    using assms(2) by (simp add: writeRange_def Let_def s'_def e'_def d_def)
  have ext: "withinExtent s' (topLeft r)" "withinExtent s' (bottomRight r)"
    using assms(1) by (auto simp: withinExtent_def s'_def wellOrdered_def)
  have len: "length v = Suc (row (bottomRight r)) - row (topLeft r)"
    using assms(2) by (simp add: shapeMatches_def length_rangeRows)
  have lens: "length (v ! k) = Suc (col (bottomRight r)) - col (topLeft r)" if "k < length v" for k
    using assms(2) that by (simp add: shapeMatches_def length_rangeCols list_all_length)
  have "map (\<lambda>i. map (\<lambda>j. cellAt s' i j) (rangeCols r)) (rangeRows r) = v"
  proof (rule nth_equalityI)
    show "length (map (\<lambda>i. map (\<lambda>j. cellAt s' i j) (rangeCols r)) (rangeRows r)) = length v"
      using len by (simp add: length_rangeRows)
  next
    fix k assume "k < length (map (\<lambda>i. map (\<lambda>j. cellAt s' i j) (rangeCols r)) (rangeRows r))"
    then have k: "k < length v" using len by (simp add: length_rangeRows)
    then have kr: "k < Suc (row (bottomRight r)) - row (topLeft r)" using len by simp
    have "map (\<lambda>j. cellAt s' (row (topLeft r) + k) j) (rangeCols r) = v ! k"
    proof (rule nth_equalityI)
      show "length (map (\<lambda>j. cellAt s' (row (topLeft r) + k) j) (rangeCols r)) = length (v ! k)"
        using lens[OF k] by (simp add: length_rangeCols)
    next
      fix l assume "l < length (map (\<lambda>j. cellAt s' (row (topLeft r) + k) j) (rangeCols r))"
      then have l: "l < Suc (col (bottomRight r)) - col (topLeft r)"
        by (simp add: length_rangeCols)
      have inside: "row (topLeft r) + k \<le> row (bottomRight r)"
        "col (topLeft r) + l \<le> col (bottomRight r)"
        using kr l by linarith+
      have "l < length (rangeCols r)" using l by (simp add: length_rangeCols)
      then show "map (\<lambda>j. cellAt s' (row (topLeft r) + k) j) (rangeCols r) ! l = v ! k ! l"
        using l inside by (simp add: nth_rangeCols s'_def)
    qed
    moreover have "k < length (rangeRows r)" using kr by (simp add: length_rangeRows)
    ultimately show "map (\<lambda>i. map (\<lambda>j. cellAt s' i j) (rangeCols r)) (rangeRows r) ! k = v ! k"
      using kr by (simp add: nth_rangeRows)
  qed
  then have "readRange e' r = Inr v"
    using ext by (simp add: readRange_def e'_def)
  with w show ?thesis by blast
qed

theorem writeRange_then_readRange_witness:
  "wellOrdered \<lparr>topLeft = \<lparr>row = 0, col = 0\<rparr>, bottomRight = \<lparr>row = 1, col = 1\<rparr>\<rparr> \<and>
   shapeMatches \<lparr>topLeft = \<lparr>row = 0, col = 0\<rparr>, bottomRight = \<lparr>row = 1, col = 1\<rparr>\<rparr>
     [[\<lparr>cell_value = Number 1, format_hint = None\<rparr>, \<lparr>cell_value = Number 2, format_hint = None\<rparr>],
      [\<lparr>cell_value = Number 3, format_hint = None\<rparr>, \<lparr>cell_value = Text ''x'', format_hint = None\<rparr>]] \<and>
   (\<exists>e' d.
      writeRange
        \<lparr>engine_sheet = \<lparr>rowCount = 3, columnCount = 3,
           cellAt = (\<lambda>i j. \<lparr>cell_value = Empty, format_hint = None\<rparr>)\<rparr>,
         engine_sequence = 0\<rparr>
        \<lparr>topLeft = \<lparr>row = 0, col = 0\<rparr>, bottomRight = \<lparr>row = 1, col = 1\<rparr>\<rparr>
        [[\<lparr>cell_value = Number 1, format_hint = None\<rparr>, \<lparr>cell_value = Number 2, format_hint = None\<rparr>],
         [\<lparr>cell_value = Number 3, format_hint = None\<rparr>, \<lparr>cell_value = Text ''x'', format_hint = None\<rparr>]]
        = Inr (e', d) \<and>
      readRange e' \<lparr>topLeft = \<lparr>row = 0, col = 0\<rparr>, bottomRight = \<lparr>row = 1, col = 1\<rparr>\<rparr> =
        Inr [[\<lparr>cell_value = Number 1, format_hint = None\<rparr>, \<lparr>cell_value = Number 2, format_hint = None\<rparr>],
             [\<lparr>cell_value = Number 3, format_hint = None\<rparr>, \<lparr>cell_value = Text ''x'', format_hint = None\<rparr>]])"
proof -
  let ?r = "\<lparr>topLeft = \<lparr>row = 0, col = 0\<rparr>, bottomRight = \<lparr>row = 1, col = 1\<rparr>\<rparr>"
  let ?v = "[[\<lparr>cell_value = Number 1, format_hint = None\<rparr>, \<lparr>cell_value = Number 2, format_hint = None\<rparr>],
             [\<lparr>cell_value = Number 3, format_hint = None\<rparr>, \<lparr>cell_value = Text ''x'', format_hint = None\<rparr>]]"
  have h1: "wellOrdered ?r" by (simp add: wellOrdered_def)
  have h2: "shapeMatches ?r ?v" by (simp add: shapeMatches_def rangeRows_def rangeCols_def)
  show ?thesis
    using h1 h2 writeRange_then_readRange[OF h1 h2] by simp
qed

end
